theory Spec2Isabelle
  imports Complex_Main
begin

section \<open>The multi-period inventory replenishment model (inventory.ipynb)\<close>

text \<open>
  The notebook is a straight-line script: it fixes the problem data, declares four
  families of decision variables in a solver session, adds three families of linear
  constraints, sets the objective to minimise, calls the external solver and prints the
  solved values and three totals. The solver session is the only state; it is modelled
  as the record \<open>model\<close> that the script builds up. The solver itself (SCIP behind
  OR-Tools) is external: what it returns is a parameter of the extraction step.
\<close>

subsection \<open>Problem data\<close>

text \<open>
  The script's global constants. Python's integers are unbounded, so \<open>int\<close>.
  \<open>inventory_holding_cost = selling_price * 0.01\<close> is a float in the source; it is
  taken here as the exact rational \<open>selling_price / 100\<close>.
\<close>

record problem =
  stock_level :: int
  selling_price :: int
  number_of_days :: int
  demand :: "int list"
  moq :: int
  delivery_cost :: int

definition inventory_holding_cost :: "problem \<Rightarrow> rat" where
  "inventory_holding_cost p = of_int (selling_price p) * (1 / 100)"

definition lost_sales_cost :: "problem \<Rightarrow> rat" where
  "lost_sales_cost p = of_int (selling_price p)"

text \<open>\<open>range(n)\<close>: empty when \<open>n \<le> 0\<close>.\<close>

definition range_py :: "int \<Rightarrow> nat list" where
  "range_py n = [0..<nat n]"

datatype error = IndexError

subsection \<open>Decision variables\<close>

text \<open>
  The dictionaries \<open>x\<close>, \<open>intake\<close>, \<open>inv\<close> and \<open>lost\<close> map a day index to a solver
  variable; a variable is identified by its family and index (the source names them
  \<open>x_i\<close>, \<open>ord_i\<close>, \<open>inv_i\<close>, \<open>lost_i\<close>). \<open>solver.infinity()\<close> as an upper bound is
  \<open>None\<close>. \<open>BoolVar\<close> is an integer variable with bounds 0 and 1.
\<close>

datatype var = X nat | Intake nat | Inv nat | Lost nat

record var_decl =
  var_of :: var
  lb :: int
  ub :: "int option"

definition IntVar :: "int \<Rightarrow> int option \<Rightarrow> var \<Rightarrow> var_decl" where
  "IntVar l u v = \<lparr>var_of = v, lb = l, ub = u\<rparr>"

definition BoolVar :: "var \<Rightarrow> var_decl" where
  "BoolVar v = IntVar 0 (Some 1) v"

definition declare_day :: "nat \<Rightarrow> var_decl list" where
  "declare_day i =
     [BoolVar (X i), IntVar 0 None (Intake i), IntVar 0 None (Inv i), IntVar 0 None (Lost i)]"

definition declare_variables :: "problem \<Rightarrow> var_decl list" where
  "declare_variables p = concat (map declare_day (range_py (number_of_days p)))"

subsection \<open>Linear expressions and constraints\<close>

datatype lexpr =
    Const rat
  | Var var
  | Add lexpr lexpr
  | Sub lexpr lexpr
  | Mul rat lexpr

datatype constraint = Le lexpr lexpr | Ge lexpr lexpr | Eq lexpr lexpr

text \<open>Every variable of the script is integer-typed, so an assignment gives integers.\<close>

type_synonym assignment = "var \<Rightarrow> int"

fun eval :: "assignment \<Rightarrow> lexpr \<Rightarrow> rat" where
  "eval \<sigma> (Const c) = c"
| "eval \<sigma> (Var v) = of_int (\<sigma> v)"
| "eval \<sigma> (Add a b) = eval \<sigma> a + eval \<sigma> b"
| "eval \<sigma> (Sub a b) = eval \<sigma> a - eval \<sigma> b"
| "eval \<sigma> (Mul c a) = c * eval \<sigma> a"

fun sat :: "assignment \<Rightarrow> constraint \<Rightarrow> bool" where
  "sat \<sigma> (Le a b) = (eval \<sigma> a \<le> eval \<sigma> b)"
| "sat \<sigma> (Ge a b) = (eval \<sigma> a \<ge> eval \<sigma> b)"
| "sat \<sigma> (Eq a b) = (eval \<sigma> a = eval \<sigma> b)"

text \<open>Constraint (1): \<open>intake[i] <= 1000000 * x[i]\<close>.\<close>

definition constraint1 :: "nat \<Rightarrow> constraint" where
  "constraint1 i = Le (Var (Intake i)) (Mul 1000000 (Var (X i)))"

text \<open>Constraint (2): \<open>intake[i] >= moq * x[i]\<close>.\<close>

definition constraint2 :: "problem \<Rightarrow> nat \<Rightarrow> constraint" where
  "constraint2 p i = Ge (Var (Intake i)) (Mul (of_int (moq p)) (Var (X i)))"

text \<open>
  Constraint (3): \<open>stock_level + intake[i] - demand[i] + lost[i] == inv[i]\<close> on the first
  day, \<open>inv[i-1] + intake[i] - demand[i] + lost[i] == inv[i]\<close> afterwards.
\<close>

definition constraint3 :: "problem \<Rightarrow> nat \<Rightarrow> constraint" where
  "constraint3 p i =
     (if i = 0 then
        Eq (Add (Sub (Add (Const (of_int (stock_level p))) (Var (Intake i)))
                     (Const (of_int (demand p ! i))))
                (Var (Lost i)))
           (Var (Inv i))
      else
        Eq (Add (Sub (Add (Var (Inv (i - 1))) (Var (Intake i)))
                     (Const (of_int (demand p ! i))))
                (Var (Lost i)))
           (Var (Inv i)))"

text \<open>
  The third loop reads \<open>demand[i]\<close>, which raises IndexError when the list is too short;
  the loop stops there.
\<close>

fun add_dynamics :: "problem \<Rightarrow> nat list \<Rightarrow> constraint list \<Rightarrow> error + constraint list" where
  "add_dynamics p [] cs = Inr cs"
| "add_dynamics p (i # is) cs =
     (if i < length (demand p) then add_dynamics p is (cs @ [constraint3 p i])
      else Inl IndexError)"

definition add_constraints :: "problem \<Rightarrow> error + constraint list" where
  "add_constraints p =
     (let days = range_py (number_of_days p);
          cs1 = map constraint1 days;
          cs2 = cs1 @ map (constraint2 p) days
      in add_dynamics p days cs2)"

subsection \<open>Objective\<close>

text \<open>
  \<open>sum(delivery_cost * x[i] + inventory_holding_cost * inv[i] + selling_price * lost[i]
  for i in range(number_of_days))\<close>; Python's \<open>sum\<close> starts from 0 and adds from the left.
\<close>

definition day_cost :: "problem \<Rightarrow> nat \<Rightarrow> lexpr" where
  "day_cost p i =
     Add (Add (Mul (of_int (delivery_cost p)) (Var (X i)))
              (Mul (inventory_holding_cost p) (Var (Inv i))))
         (Mul (of_int (selling_price p)) (Var (Lost i)))"

definition objective :: "problem \<Rightarrow> lexpr" where
  "objective p = foldl Add (Const 0) (map (day_cost p) (range_py (number_of_days p)))"

subsection \<open>The built model and its solutions\<close>

record model =
  vars :: "var_decl list"
  constraints :: "constraint list"
  minimize :: lexpr

definition build_model :: "problem \<Rightarrow> error + model" where
  "build_model p =
     (case add_constraints p of
        Inl e \<Rightarrow> Inl e
      | Inr cs \<Rightarrow> Inr \<lparr>vars = declare_variables p, constraints = cs, minimize = objective p\<rparr>)"

text \<open>
  What the solver is asked for: an assignment inside the declared bounds that satisfies
  every constraint, with the least objective among those.
\<close>

definition in_bounds :: "assignment \<Rightarrow> var_decl \<Rightarrow> bool" where
  "in_bounds \<sigma> d = (lb d \<le> \<sigma> (var_of d) \<and> (case ub d of None \<Rightarrow> True | Some u \<Rightarrow> \<sigma> (var_of d) \<le> u))"

definition satisfies :: "model \<Rightarrow> assignment \<Rightarrow> bool" where
  "satisfies m \<sigma> = (\<forall>c \<in> set (constraints m). sat \<sigma> c)"

definition feasible :: "model \<Rightarrow> assignment \<Rightarrow> bool" where
  "feasible m \<sigma> = ((\<forall>d \<in> set (vars m). in_bounds \<sigma> d) \<and> satisfies m \<sigma>)"

definition optimal :: "model \<Rightarrow> assignment \<Rightarrow> bool" where
  "optimal m \<sigma> = (feasible m \<sigma> \<and> (\<forall>\<tau>. feasible m \<tau> \<longrightarrow> eval \<sigma> (minimize m) \<le> eval \<tau> (minimize m)))"

subsection \<open>Solve and result extraction\<close>

text \<open>
  \<open>solver.Solve()\<close> returns a status code (0 = optimal, 1 = feasible, 2 = infeasible,
  3 = unbounded, 4 = abnormal, 6 = not solved); afterwards \<open>solver.Objective().Value()\<close>
  and \<open>solution_value()\<close> of each variable can be read. The values are floats in the
  source; a float is a rational number, and \<open>int(...)\<close> of a float drops its fractional
  part (truncation towards zero).
\<close>

datatype status = OPTIMAL | FEASIBLE | INFEASIBLE | UNBOUNDED | ABNORMAL | NOT_SOLVED

fun status_code :: "status \<Rightarrow> int" where
  "status_code OPTIMAL = 0"
| "status_code FEASIBLE = 1"
| "status_code INFEASIBLE = 2"
| "status_code UNBOUNDED = 3"
| "status_code ABNORMAL = 4"
| "status_code NOT_SOLVED = 6"

record solve_result =
  status :: status
  objective_value :: rat
  solution_value :: "var \<Rightarrow> rat"

definition py_int :: "rat \<Rightarrow> int" where
  "py_int r = (if 0 \<le> r then \<lfloor>r\<rfloor> else \<lceil>r\<rceil>)"

text \<open>
  What the last cell prints, as values: the status code, the objective value, the initial
  stock, the rows of the table (day numbers from 1, intake, demand, inventory, lost) and
  the three totals. The solved values are taken to be finite.
\<close>

record report =
  printed_status :: int
  printed_objective :: rat
  initial_stock :: int
  day_row :: "nat list"
  intake_row :: "int list"
  demand_row :: "int list"
  inv_row :: "int list"
  lost_row :: "int list"
  total_intake_qty :: int
  total_inventory :: int
  total_lost_sales_qty :: int

text \<open>The demand row reads \<open>demand[i]\<close> for every day.\<close>

fun demand_cells :: "problem \<Rightarrow> nat list \<Rightarrow> error + int list" where
  "demand_cells p [] = Inr []"
| "demand_cells p (i # is) =
     (if i < length (demand p) then
        (case demand_cells p is of Inl e \<Rightarrow> Inl e | Inr r \<Rightarrow> Inr (demand p ! i # r))
      else Inl IndexError)"

text \<open>
  The totals loop: all three additions are in the body of
  \<open>if x[i].solution_value() == 1\<close>.
\<close>

fun accumulate :: "(var \<Rightarrow> rat) \<Rightarrow> nat list \<Rightarrow> rat \<times> rat \<times> rat \<Rightarrow> rat \<times> rat \<times> rat" where
  "accumulate sol [] acc = acc"
| "accumulate sol (i # is) (qty, inventory, lost_qty) =
     (if sol (X i) = 1 then
        accumulate sol is (qty + sol (Intake i), inventory + sol (Inv i), lost_qty + sol (Lost i))
      else accumulate sol is (qty, inventory, lost_qty))"

definition extract_results :: "problem \<Rightarrow> solve_result \<Rightarrow> error + report" where
  "extract_results p r =
     (let days = range_py (number_of_days p); sol = solution_value r in
      case demand_cells p days of
        Inl e \<Rightarrow> Inl e
      | Inr cells \<Rightarrow>
          (case accumulate sol days (0, 0, 0) of
             (qty, inventory, lost_qty) \<Rightarrow>
               Inr \<lparr>printed_status = status_code (status r),
                    printed_objective = objective_value r,
                    initial_stock = stock_level p,
                    day_row = map (\<lambda>i. i + 1) days,
                    intake_row = map (\<lambda>i. py_int (sol (Intake i))) days,
                    demand_row = cells,
                    inv_row = map (\<lambda>i. py_int (sol (Inv i))) days,
                    lost_row = map (\<lambda>i. py_int (sol (Lost i))) days,
                    total_intake_qty = py_int qty,
                    total_inventory = py_int inventory,
                    total_lost_sales_qty = py_int lost_qty\<rparr>))"

text \<open>The whole script, with the external solver as a parameter.\<close>

definition run :: "problem \<Rightarrow> (model \<Rightarrow> solve_result) \<Rightarrow> error + report" where
  "run p solver =
     (case build_model p of Inl e \<Rightarrow> Inl e | Inr m \<Rightarrow> extract_results p (solver m))"



text \<open>The values read for an (integer) assignment without rounding noise.\<close>

definition exact_values :: "assignment \<Rightarrow> var \<Rightarrow> rat" where
  "exact_values \<sigma> v = of_int (\<sigma> v)"

subsection \<open>The notebook's instance and its recorded output\<close>

definition notebook_data :: problem where
  "notebook_data =
     \<lparr>stock_level = 4, selling_price = 10, number_of_days = 10,
      demand = [3, 5, 3, 5, 3, 5, 3, 5, 3, 5], moq = 10, delivery_cost = 1\<rparr>"

definition notebook_model :: model where
  "notebook_model =
     \<lparr>vars = declare_variables notebook_data,
      constraints = map constraint1 (range_py 10) @ map (constraint2 notebook_data) (range_py 10)
                    @ map (constraint3 notebook_data) (range_py 10),
      minimize = objective notebook_data\<rparr>"

definition row_at :: "int list \<Rightarrow> nat \<Rightarrow> int" where
  "row_at xs i = (if i < length xs then xs ! i else 0)"

text \<open>
  The rows printed in the notebook's stored output; the indicator row is not printed, it
  is 1 exactly on the days with an intake.
\<close>

definition recorded_solution :: assignment where
  "recorded_solution v =
     (case v of
        X i \<Rightarrow> row_at [0, 1, 0, 0, 1, 0, 0, 1, 0, 0] i
      | Intake i \<Rightarrow> row_at [0, 12, 0, 0, 11, 0, 0, 13, 0, 0] i
      | Inv i \<Rightarrow> row_at [1, 8, 5, 0, 8, 3, 0, 8, 5, 0] i
      | Lost i \<Rightarrow> row_at [0, 0, 0, 0, 0, 0, 0, 0, 0, 0] i)"

definition recorded_result :: solve_result where
  "recorded_result =
     \<lparr>status = OPTIMAL, objective_value = 34 / 5, solution_value = exact_values recorded_solution\<rparr>"

definition recorded_report :: report where
  "recorded_report =
     \<lparr>printed_status = 0, printed_objective = 34 / 5, initial_stock = 4,
      day_row = [1, 2, 3, 4, 5, 6, 7, 8, 9, 10],
      intake_row = [0, 12, 0, 0, 11, 0, 0, 13, 0, 0],
      demand_row = [3, 5, 3, 5, 3, 5, 3, 5, 3, 5],
      inv_row = [1, 8, 5, 0, 8, 3, 0, 8, 5, 0],
      lost_row = [0, 0, 0, 0, 0, 0, 0, 0, 0, 0],
      total_intake_qty = 36, total_inventory = 24, total_lost_sales_qty = 0\<rparr>"

text \<open>A solver that answers the same for every model.\<close>

definition constant_solver :: "solve_result \<Rightarrow> model \<Rightarrow> solve_result" where
  "constant_solver r m = r"

subsection \<open>Further instances\<close>

text \<open>A one-day horizon whose demand the starting stock covers.\<close>

definition one_day_data :: problem where
  "one_day_data =
     \<lparr>stock_level = 4, selling_price = 10, number_of_days = 1, demand = [3], moq = 10,
      delivery_cost = 1\<rparr>"

definition one_day_model :: model where
  "one_day_model =
     \<lparr>vars = declare_day 0,
      constraints = [constraint1 0, constraint2 one_day_data 0, constraint3 one_day_data 0],
      minimize = objective one_day_data\<rparr>"

definition one_day_solution :: assignment where
  "one_day_solution v = (if v = Inv 0 then 1 else 0)"






text \<open>
  A one-day horizon with a negative selling price: losing sales pays, so the objective has
  no minimum and the solver cannot answer OPTIMAL. What is read after a solve without a
  solution is 0 for the objective and for every variable.
\<close>

definition unbounded_data :: problem where
  "unbounded_data =
     \<lparr>stock_level = 4, selling_price = - 10, number_of_days = 1, demand = [3], moq = 10,
      delivery_cost = 1\<rparr>"

definition unbounded_model :: model where
  "unbounded_model =
     \<lparr>vars = declare_day 0,
      constraints = [constraint1 0, constraint2 unbounded_data 0, constraint3 unbounded_data 0],
      minimize = objective unbounded_data\<rparr>"

definition failed_result :: "status \<Rightarrow> solve_result" where
  "failed_result st = \<lparr>status = st, objective_value = 0, solution_value = (\<lambda>v. 0)\<rparr>"

definition failed_report :: "int \<Rightarrow> report" where
  "failed_report code =
     \<lparr>printed_status = code, printed_objective = 0, initial_stock = 4,
      day_row = [1], intake_row = [0], demand_row = [3], inv_row = [0], lost_row = [0],
      total_intake_qty = 0, total_inventory = 0, total_lost_sales_qty = 0\<rparr>"

text \<open>Data with no day to plan, a negative demand, a negative MOQ and a negative
  delivery cost.\<close>

definition invalid_data :: problem where
  "invalid_data =
     \<lparr>stock_level = 4, selling_price = 10, number_of_days = 0, demand = [- 3], moq = - 10,
      delivery_cost = - 1\<rparr>"

subsection \<open>A lower bound on the cost of the notebook's instance\<close>

text \<open>
  Not part of the notebook: a table-driven lower bound used to prove that the recorded
  solution is optimal. Costs are counted in tenths (an order costs 10, a unit kept to the
  end of a day 1, a lost unit 100). \<open>bound_table ds\<close> lists, for each stock level
  \<open>0..67\<close> before the days with demands \<open>ds\<close>, a lower bound (cut off at
  \<open>cost_cap\<close>) on the cost of those days: either nothing is ordered and the stock
  carries over (\<open>carry_cost\<close>), or at least 10 units are ordered and the day ends at any
  higher level (\<open>suffix_min\<close>, the cheapest continuation from a level upwards).
\<close>

definition cost_cap :: int where
  "cost_cap = 68"

fun suffix_min_rev :: "int list \<Rightarrow> int list \<Rightarrow> int list" where
  "suffix_min_rev [] r = r"
| "suffix_min_rev (v # vs) r = suffix_min_rev vs (min (int (length vs) + v) (hd r) # r)"

definition suffix_min :: "int list \<Rightarrow> int list" where
  "suffix_min T = suffix_min_rev (rev T) [cost_cap]"

definition carry_cost :: "int \<Rightarrow> int list \<Rightarrow> nat \<Rightarrow> int" where
  "carry_cost d T s =
     (if d \<le> int s \<and> nat (int s - d) < length T then (int s - d) + T ! nat (int s - d)
      else cost_cap)"

definition bound_entry :: "int \<Rightarrow> int list \<Rightarrow> int list \<Rightarrow> nat \<Rightarrow> int" where
  "bound_entry d T H s =
     min cost_cap (min (carry_cost d T s) (10 + H ! min (length T) (nat (int s + 10 - d))))"

definition bound_step :: "int \<Rightarrow> int list \<Rightarrow> int list" where
  "bound_step d T = map (bound_entry d T (suffix_min T)) [0..<length T]"

fun bound_table :: "int list \<Rightarrow> int list" where
  "bound_table [] = replicate 68 0"
| "bound_table (d # ds) = bound_step d (bound_table ds)"

definition bound_at :: "int list \<Rightarrow> int \<Rightarrow> int" where
  "bound_at T s = (if 0 \<le> s \<and> nat s < length T then T ! nat s else 0)"

section \<open>Properties of the built model\<close>

lemma set_range_py: "i \<in> set (range_py n) \<longleftrightarrow> i < nat n"
  by (simp add: range_py_def)

lemma add_dynamics_Inr:
  "add_dynamics p is cs = Inr cs' \<longleftrightarrow>
     ((\<forall>i \<in> set is. i < length (demand p)) \<and> cs' = cs @ map (constraint3 p) is)"
  by (induction "is" arbitrary: cs) auto

lemma error_unique: "(a::error) = b"
  by (cases a, cases b) simp

lemma add_dynamics_Inl:
  "add_dynamics p is cs = Inl e \<longleftrightarrow> (\<exists>i \<in> set is. \<not> i < length (demand p))"
  by (induction "is" arbitrary: cs) (auto simp: error_unique [of _ e])

lemma build_model_Inr:
  "build_model p = Inr m \<longleftrightarrow>
     (nat (number_of_days p) \<le> length (demand p) \<and>
      m = \<lparr>vars = declare_variables p,
           constraints = map constraint1 (range_py (number_of_days p))
                         @ map (constraint2 p) (range_py (number_of_days p))
                         @ map (constraint3 p) (range_py (number_of_days p)),
           minimize = objective p\<rparr>)"
proof -
  have "(\<forall>i \<in> set (range_py (number_of_days p)). i < length (demand p))
        \<longleftrightarrow> nat (number_of_days p) \<le> length (demand p)"
    by (auto simp: set_range_py not_le dest: spec [of _ "length (demand p)"])
  then show ?thesis
    by (auto simp: build_model_def add_constraints_def Let_def add_dynamics_Inr
             add_dynamics_Inl split: sum.splits)
qed

lemma range_py_10: "range_py 10 = [0, 1, 2, 3, 4, 5, 6, 7, 8, 9]"
  by (simp add: range_py_def upt_rec)

lemma build_model_constraints:
  assumes "build_model p = Inr m" and "satisfies m \<sigma>" and "t < nat (number_of_days p)"
  shows "sat \<sigma> (constraint1 t)" and "sat \<sigma> (constraint2 p t)" and "sat \<sigma> (constraint3 p t)"
  using assms by (auto simp: build_model_Inr satisfies_def set_range_py)

lemma build_model_bounds:
  assumes "build_model p = Inr m" and "\<forall>d \<in> set (vars m). in_bounds \<sigma> d"
    and "t < nat (number_of_days p)"
  shows "0 \<le> \<sigma> (X t)" and "\<sigma> (X t) \<le> 1" and "0 \<le> \<sigma> (Intake t)"
    and "0 \<le> \<sigma> (Inv t)" and "0 \<le> \<sigma> (Lost t)"
proof -
  have "set (declare_day t) \<subseteq> set (vars m)"
    using assms(1,3) by (auto simp: build_model_Inr declare_variables_def set_range_py)
  then have "\<forall>d \<in> set (declare_day t). in_bounds \<sigma> d"
    using assms(2) by auto
  then show "0 \<le> \<sigma> (X t)" and "\<sigma> (X t) \<le> 1" and "0 \<le> \<sigma> (Intake t)"
    and "0 \<le> \<sigma> (Inv t)" and "0 \<le> \<sigma> (Lost t)"
    by (simp_all add: declare_day_def BoolVar_def IntVar_def in_bounds_def)
qed

lemma balance_of_sat:
  assumes "sat \<sigma> (constraint3 p t)"
  shows "(if t = 0 then stock_level p else \<sigma> (Inv (t - 1))) + \<sigma> (Intake t) - demand p ! t
           + \<sigma> (Lost t) = \<sigma> (Inv t)"
proof (cases "t = 0")
  case True
  with assms have "(of_int (stock_level p + \<sigma> (Intake t) - demand p ! t + \<sigma> (Lost t)) :: rat)
      = of_int (\<sigma> (Inv t))"
    by (simp add: constraint3_def)
  then have "stock_level p + \<sigma> (Intake t) - demand p ! t + \<sigma> (Lost t) = \<sigma> (Inv t)"
    by (simp only: of_int_eq_iff)
  then show ?thesis using True by simp
next
  case False
  with assms have "(of_int (\<sigma> (Inv (t - 1)) + \<sigma> (Intake t) - demand p ! t + \<sigma> (Lost t)) :: rat)
      = of_int (\<sigma> (Inv t))"
    by (simp add: constraint3_def)
  then have "\<sigma> (Inv (t - 1)) + \<sigma> (Intake t) - demand p ! t + \<sigma> (Lost t) = \<sigma> (Inv t)"
    by (simp only: of_int_eq_iff)
  then show ?thesis using False by simp
qed

lemma upper_of_sat:
  assumes "sat \<sigma> (constraint1 t)"
  shows "\<sigma> (Intake t) \<le> 1000000 * \<sigma> (X t)"
proof -
  from assms have "(of_int (\<sigma> (Intake t)) :: rat) \<le> of_int (1000000 * \<sigma> (X t))"
    by (simp add: constraint1_def)
  then show ?thesis by (simp only: of_int_le_iff)
qed

lemma lower_of_sat:
  assumes "sat \<sigma> (constraint2 p t)"
  shows "moq p * \<sigma> (X t) \<le> \<sigma> (Intake t)"
proof -
  from assms have "(of_int (moq p * \<sigma> (X t)) :: rat) \<le> of_int (\<sigma> (Intake t))"
    by (simp add: constraint2_def)
  then show ?thesis by (simp only: of_int_le_iff)
qed

lemma satisfies_recorded: "satisfies notebook_model recorded_solution"
  by (simp add: satisfies_def notebook_model_def range_py_10 constraint1_def constraint2_def
      constraint3_def notebook_data_def recorded_solution_def row_at_def)

lemma recorded_in_bounds: "\<forall>d \<in> set (vars notebook_model). in_bounds recorded_solution d"
  by (simp add: notebook_model_def declare_variables_def notebook_data_def range_py_10
      declare_day_def BoolVar_def IntVar_def in_bounds_def recorded_solution_def row_at_def)

lemma recorded_feasible: "feasible notebook_model recorded_solution"
  using recorded_in_bounds satisfies_recorded by (simp add: feasible_def)

lemma build_notebook_model: "build_model notebook_data = Inr notebook_model"
  by (simp add: build_model_Inr notebook_model_def) (simp add: notebook_data_def)

section \<open>Claims about the constraints\<close>

text \<open>
  C1 (inventory-balance recurrence). For every day \<open>t\<close> of the horizon (the source counts
  days from 0, the claim from 1), every assignment that satisfies the generated
  constraints has
  \<open>ending_level[t-1] + quantity[t] - demand[t] + lost[t] = ending_level[t]\<close> exactly, as
  an equation between integers, where the level before the first day is the starting
  stock.
\<close>

theorem inventory_balance:
  assumes "build_model p = Inr m" and "satisfies m \<sigma>" and "t < nat (number_of_days p)"
  shows "(if t = 0 then stock_level p else \<sigma> (Inv (t - 1))) + \<sigma> (Intake t) - demand p ! t
           + \<sigma> (Lost t) = \<sigma> (Inv t)"
  by (rule balance_of_sat) (rule build_model_constraints [OF assms])

theorem inventory_balance_witness:
  "build_model notebook_data = Inr notebook_model \<and> satisfies notebook_model recorded_solution
   \<and> 4 < nat (number_of_days notebook_data)
   \<and> recorded_solution (Inv 3) + recorded_solution (Intake 4) - demand notebook_data ! 4
       + recorded_solution (Lost 4) = recorded_solution (Inv 4)
   \<and> recorded_solution (Inv 3) = 0 \<and> recorded_solution (Intake 4) = 11
   \<and> recorded_solution (Inv 4) = 8"
proof -
  have d: "4 < nat (number_of_days notebook_data)"
    by (simp add: notebook_data_def)
  show ?thesis
    using inventory_balance [OF build_notebook_model satisfies_recorded d]
      build_notebook_model satisfies_recorded d
    by (simp add: recorded_solution_def row_at_def)
qed

text \<open>
  C2 (indicator linkage). On every day, an assignment with the indicator in \<open>{0, 1}\<close> and
  a non-negative integer quantity that satisfies the two generated linking constraints
  \<open>quantity \<le> 1000000 * indicator\<close> and \<open>quantity \<ge> MOQ * indicator\<close> has quantity 0
  when the indicator is 0, quantity at least MOQ when the indicator is 1, indicator 1
  when the quantity is positive; so the quantity is 0 or lies between MOQ and 1000000.
\<close>

theorem indicator_linkage:
  assumes "build_model p = Inr m" and "satisfies m \<sigma>" and "t < nat (number_of_days p)"
    and "\<sigma> (X t) \<in> {0, 1}" and "0 \<le> \<sigma> (Intake t)"
  shows "(\<sigma> (X t) = 0 \<longrightarrow> \<sigma> (Intake t) = 0)
       \<and> (\<sigma> (X t) = 1 \<longrightarrow> moq p \<le> \<sigma> (Intake t))
       \<and> (0 < \<sigma> (Intake t) \<longrightarrow> \<sigma> (X t) = 1)
       \<and> (\<sigma> (Intake t) = 0 \<or> (moq p \<le> \<sigma> (Intake t) \<and> \<sigma> (Intake t) \<le> 1000000))"
proof -
  have u: "\<sigma> (Intake t) \<le> 1000000 * \<sigma> (X t)"
    by (rule upper_of_sat) (rule build_model_constraints [OF assms(1-3)])
  have l: "moq p * \<sigma> (X t) \<le> \<sigma> (Intake t)"
    by (rule lower_of_sat) (rule build_model_constraints [OF assms(1-3)])
  from assms(4) consider "\<sigma> (X t) = 0" | "\<sigma> (X t) = 1" by auto
  then show ?thesis
  proof cases
    case 1
    with u assms(5) show ?thesis by simp
  next
    case 2
    with u l show ?thesis by simp
  qed
qed

theorem indicator_linkage_witness:
  "build_model notebook_data = Inr notebook_model \<and> satisfies notebook_model recorded_solution
   \<and> 1 < nat (number_of_days notebook_data)
   \<and> recorded_solution (X 1) \<in> {0, 1} \<and> 0 \<le> recorded_solution (Intake 1)
   \<and> recorded_solution (X 1) = 1 \<and> moq notebook_data \<le> recorded_solution (Intake 1)
   \<and> recorded_solution (Intake 1) \<le> 1000000"
proof -
  have d: "1 < nat (number_of_days notebook_data)"
    by (simp add: notebook_data_def)
  have x: "recorded_solution (X 1) \<in> {0, 1}" and q: "0 \<le> recorded_solution (Intake 1)"
    by (simp_all add: recorded_solution_def row_at_def)
  show ?thesis
    using indicator_linkage [OF build_notebook_model satisfies_recorded d x q]
      build_notebook_model satisfies_recorded d
    by (simp add: recorded_solution_def row_at_def)
qed

section \<open>Claims about the objective\<close>

lemma eval_foldl_Add: "eval \<sigma> (foldl Add a es) = eval \<sigma> a + sum_list (map (eval \<sigma>) es)"
  by (induction es arbitrary: a) simp_all

lemma eval_objective:
  "eval \<sigma> (objective p) = (\<Sum>i<nat (number_of_days p). eval \<sigma> (day_cost p i))"
  by (simp add: objective_def eval_foldl_Add range_py_def o_def
      interv_sum_list_conv_sum_set_nat atLeast0LessThan)

text \<open>
  C7 (objective composition). The expression that the built model minimises has, under
  every assignment, the value of the sum over the days of
  \<open>delivery_cost * indicator + holding_cost_rate * ending_level + lost_sales_unit_cost * lost\<close>,
  where the holding cost rate is \<open>selling_price * 0.01\<close> and the lost-sales unit cost is
  the selling price: two constants of the problem data, the same on every day.
\<close>

theorem objective_composition:
  assumes "build_model p = Inr m"
  shows "eval \<sigma> (minimize m) =
           (\<Sum>t<nat (number_of_days p).
              of_int (delivery_cost p) * of_int (\<sigma> (X t))
              + inventory_holding_cost p * of_int (\<sigma> (Inv t))
              + lost_sales_cost p * of_int (\<sigma> (Lost t)))
       \<and> eval \<sigma> (minimize m) =
           (\<Sum>t<nat (number_of_days p).
              of_int (delivery_cost p) * of_int (\<sigma> (X t))
              + (of_int (selling_price p) * (1 / 100)) * of_int (\<sigma> (Inv t))
              + of_int (selling_price p) * of_int (\<sigma> (Lost t)))"
proof -
  from assms have "minimize m = objective p"
    by (auto simp: build_model_Inr)
  then show ?thesis
    by (simp add: eval_objective day_cost_def inventory_holding_cost_def lost_sales_cost_def)
qed

theorem objective_composition_witness:
  "build_model notebook_data = Inr notebook_model
   \<and> eval recorded_solution (minimize notebook_model) =
       (\<Sum>t<nat (number_of_days notebook_data).
          of_int (delivery_cost notebook_data) * of_int (recorded_solution (X t))
          + (of_int (selling_price notebook_data) * (1 / 100)) * of_int (recorded_solution (Inv t))
          + of_int (selling_price notebook_data) * of_int (recorded_solution (Lost t)))
   \<and> eval recorded_solution (minimize notebook_model) = 34 / 5"
proof -
  have "eval recorded_solution (minimize notebook_model) = 34 / 5"
    by (simp add: notebook_model_def objective_def notebook_data_def range_py_10 day_cost_def
        inventory_holding_cost_def recorded_solution_def row_at_def)
  then show ?thesis
    using objective_composition [OF build_notebook_model, of recorded_solution]
      build_notebook_model by simp
qed

section \<open>Claims about result extraction\<close>

lemma py_int_of_int: "py_int (of_int n) = n"
  by (simp add: py_int_def)





lemma demand_cells_ok:
  "\<forall>i \<in> set is. i < length (demand p) \<Longrightarrow> demand_cells p is = Inr (map (\<lambda>i. demand p ! i) is)"
  by (induction "is") simp_all

lemma demand_cells_fail:
  "\<exists>i \<in> set is. \<not> i < length (demand p) \<Longrightarrow> demand_cells p is = Inl IndexError"
  by (induction "is") (auto simp: demand_cells_ok split: sum.splits intro: error_unique)

lemma demand_cells_Inr:
  "demand_cells p is = Inr cells \<longleftrightarrow>
     ((\<forall>i \<in> set is. i < length (demand p)) \<and> cells = map (\<lambda>i. demand p ! i) is)"
proof (cases "\<forall>i \<in> set is. i < length (demand p)")
  case True
  then show ?thesis by (auto simp: demand_cells_ok)
next
  case False
  then have "demand_cells p is = Inl IndexError" by (simp add: demand_cells_fail)
  with False show ?thesis by simp
qed

lemma demand_cells_range:
  "demand_cells p (range_py n) = Inr cells \<longleftrightarrow>
     (nat n \<le> length (demand p) \<and> cells = map (\<lambda>i. demand p ! i) (range_py n))"
proof -
  have "(\<forall>i \<in> set (range_py n). i < length (demand p)) \<longleftrightarrow> nat n \<le> length (demand p)"
    by (auto simp: set_range_py not_le dest: spec [of _ "length (demand p)"])
  then show ?thesis by (simp add: demand_cells_Inr)
qed

lemma accumulate_eq:
  "accumulate sol is (a, b, c) =
     (a + sum_list (map (\<lambda>i. if sol (X i) = 1 then sol (Intake i) else 0) is),
      b + sum_list (map (\<lambda>i. if sol (X i) = 1 then sol (Inv i) else 0) is),
      c + sum_list (map (\<lambda>i. if sol (X i) = 1 then sol (Lost i) else 0) is))"
  by (induction "is" arbitrary: a b c) simp_all

lemma extract_results_Inr:
  "extract_results p r = Inr rep \<longleftrightarrow>
     (nat (number_of_days p) \<le> length (demand p) \<and>
      rep = \<lparr>printed_status = status_code (status r),
             printed_objective = objective_value r,
             initial_stock = stock_level p,
             day_row = map (\<lambda>i. i + 1) (range_py (number_of_days p)),
             intake_row = map (\<lambda>i. py_int (solution_value r (Intake i))) (range_py (number_of_days p)),
             demand_row = map (\<lambda>i. demand p ! i) (range_py (number_of_days p)),
             inv_row = map (\<lambda>i. py_int (solution_value r (Inv i))) (range_py (number_of_days p)),
             lost_row = map (\<lambda>i. py_int (solution_value r (Lost i))) (range_py (number_of_days p)),
             total_intake_qty = py_int (sum_list (map (\<lambda>i. if solution_value r (X i) = 1
                 then solution_value r (Intake i) else 0) (range_py (number_of_days p)))),
             total_inventory = py_int (sum_list (map (\<lambda>i. if solution_value r (X i) = 1
                 then solution_value r (Inv i) else 0) (range_py (number_of_days p)))),
             total_lost_sales_qty = py_int (sum_list (map (\<lambda>i. if solution_value r (X i) = 1
                 then solution_value r (Lost i) else 0) (range_py (number_of_days p))))\<rparr>)"
proof (cases "nat (number_of_days p) \<le> length (demand p)")
  case True
  then have "demand_cells p (range_py (number_of_days p))
      = Inr (map (\<lambda>i. demand p ! i) (range_py (number_of_days p)))"
    by (simp add: demand_cells_range)
  with True show ?thesis
    by (auto simp: extract_results_def Let_def accumulate_eq)
next
  case False
  then have "\<exists>i \<in> set (range_py (number_of_days p)). \<not> i < length (demand p)"
    by (auto simp: set_range_py intro: bexI [of _ "length (demand p)"])
  then have "demand_cells p (range_py (number_of_days p)) = Inl IndexError"
    by (rule demand_cells_fail)
  with False show ?thesis
    by (simp add: extract_results_def Let_def)
qed


lemma build_unbounded_model: "build_model unbounded_data = Inr unbounded_model"
  by (simp add: build_model_Inr unbounded_model_def)
     (simp add: unbounded_data_def declare_variables_def range_py_def)

subsection \<open>One-day horizons\<close>

lemma one_day_objective:
  assumes "number_of_days p = 1"
  shows "eval \<sigma> (objective p) =
     of_int (delivery_cost p) * of_int (\<sigma> (X 0))
     + of_int (selling_price p) * (1 / 100) * of_int (\<sigma> (Inv 0))
     + of_int (selling_price p) * of_int (\<sigma> (Lost 0))"
  using assms by (simp add: eval_objective day_cost_def inventory_holding_cost_def)

lemma one_day_model_eq:
  assumes "number_of_days p = 1" and "build_model p = Inr m"
  shows "m = \<lparr>vars = declare_day 0,
              constraints = [constraint1 0, constraint2 p 0, constraint3 p 0],
              minimize = objective p\<rparr>"
  using assms by (simp add: build_model_Inr declare_variables_def range_py_def)

lemma degenerate_feasible:
  assumes "number_of_days p = 1" and "build_model p = Inr m"
    and "demand p ! 0 \<le> stock_level p"
  shows "feasible m (\<lambda>v. if v = Inv 0 then stock_level p - demand p ! 0 else 0)"
  using assms(3) unfolding one_day_model_eq [OF assms(1,2)]
  by (simp add: feasible_def satisfies_def declare_day_def BoolVar_def IntVar_def in_bounds_def
      constraint1_def constraint2_def constraint3_def)

lemma one_day_cost_bound:
  assumes "number_of_days p = 1" and "build_model p = Inr m" and "feasible m \<sigma>"
  shows "100 * eval \<sigma> (objective p) =
           of_int (100 * (delivery_cost p * \<sigma> (X 0))
                   + selling_price p * (stock_level p - demand p ! 0)
                   + selling_price p * \<sigma> (Intake 0)
                   + 101 * (selling_price p * \<sigma> (Lost 0)))"
proof -
  have t: "0 < nat (number_of_days p)" using assms(1) by simp
  have "satisfies m \<sigma>" using assms(3) by (simp add: feasible_def)
  then have "sat \<sigma> (constraint3 p 0)"
    using build_model_constraints(3) [OF assms(2) _ t] by simp
  then have "\<sigma> (Inv 0) = stock_level p + \<sigma> (Intake 0) - demand p ! 0 + \<sigma> (Lost 0)"
    using balance_of_sat [of \<sigma> p 0] by simp
  then show ?thesis
    unfolding one_day_objective [OF assms(1)] by (simp only:) (simp add: algebra_simps)
qed

lemma degenerate_optimal:
  assumes "number_of_days p = 1" and "build_model p = Inr m"
    and "demand p ! 0 \<le> stock_level p"
    and "0 \<le> delivery_cost p" and "0 \<le> selling_price p"
  shows "optimal m (\<lambda>v. if v = Inv 0 then stock_level p - demand p ! 0 else 0)"
proof -
  let ?\<tau> = "\<lambda>v. if v = Inv 0 then stock_level p - demand p ! 0 else (0::int)"
  have obj: "minimize m = objective p"
    using assms(2) by (auto simp: build_model_Inr)
  have f: "feasible m ?\<tau>"
    by (rule degenerate_feasible [OF assms(1-3)])
  have "eval ?\<tau> (objective p) \<le> eval \<sigma> (objective p)" if s: "feasible m \<sigma>" for \<sigma>
  proof -
    have t: "0 < nat (number_of_days p)" using assms(1) by simp
    have b: "\<forall>d \<in> set (vars m). in_bounds \<sigma> d" using s by (simp add: feasible_def)
    have "0 \<le> delivery_cost p * \<sigma> (X 0)" "0 \<le> selling_price p * \<sigma> (Intake 0)"
      "0 \<le> selling_price p * \<sigma> (Lost 0)"
      using build_model_bounds [OF assms(2) b t] assms(4,5) by simp_all
    then have "100 * eval ?\<tau> (objective p) \<le> 100 * eval \<sigma> (objective p)"
      unfolding one_day_cost_bound [OF assms(1,2) s]
        one_day_cost_bound [OF assms(1,2) f]
      by (simp only: of_int_le_iff) simp
    then show ?thesis by simp
  qed
  with f obj show ?thesis by (simp add: optimal_def)
qed


lemma unbounded_no_optimum: "\<not> optimal unbounded_model \<sigma>"
proof
  assume opt: "optimal unbounded_model \<sigma>"
  let ?\<tau> = "\<sigma>(Lost 0 := \<sigma> (Lost 0) + 1, Inv 0 := \<sigma> (Inv 0) + 1)"
  have n: "number_of_days unbounded_data = 1"
    by (simp add: unbounded_data_def)
  have f: "feasible unbounded_model \<sigma>"
    using opt by (simp add: optimal_def)
  then have t: "feasible unbounded_model ?\<tau>"
    by (simp add: feasible_def satisfies_def unbounded_model_def declare_day_def BoolVar_def
        IntVar_def in_bounds_def constraint1_def constraint2_def constraint3_def
        unbounded_data_def)
  have "eval \<sigma> (objective unbounded_data) \<le> eval ?\<tau> (objective unbounded_data)"
    using opt t by (simp add: optimal_def unbounded_model_def)
  then have "100 * eval \<sigma> (objective unbounded_data) \<le> 100 * eval ?\<tau> (objective unbounded_data)"
    by simp
  then show False
    unfolding one_day_cost_bound [OF n build_unbounded_model f]
      one_day_cost_bound [OF n build_unbounded_model t]
    by (simp only: of_int_le_iff) (simp add: unbounded_data_def)
qed

lemma extract_failed:
  "extract_results unbounded_data (failed_result st) = Inr (failed_report (status_code st))"
  by (simp add: extract_results_Inr)
     (simp add: unbounded_data_def failed_result_def failed_report_def range_py_def
        py_int_of_int [of 0, simplified])


lemma extract_recorded: "extract_results notebook_data recorded_result = Inr recorded_report"
  by (simp add: extract_results_Inr)
     (simp add: notebook_data_def recorded_result_def recorded_report_def range_py_10
        exact_values_def recorded_solution_def row_at_def py_int_def)

lemma build_one_day_model: "build_model one_day_data = Inr one_day_model"
  by (simp add: build_model_Inr one_day_model_def)
     (simp add: one_day_data_def declare_variables_def range_py_def)

lemma sum_list_upt: "sum_list (map f [0..<n]) = (\<Sum>t<n. f t)"
  by (simp add: interv_sum_list_conv_sum_set_nat atLeast0LessThan)

text \<open>
  C10 (the filtered intake total is lossless). When the solved values are those of an
  assignment of the declared variables (each within its declared bounds) that satisfies
  constraint (1) on every day, the total intake quantity, which the totals loop adds up
  only over the days whose indicator equals 1, is the sum of the quantities over all
  days.
\<close>

theorem filtered_intake_total:
  assumes "build_model p = Inr m"
    and "\<forall>d \<in> set (vars m). in_bounds \<sigma> d"
    and "\<forall>t < nat (number_of_days p). sat \<sigma> (constraint1 t)"
    and "extract_results p r = Inr rep"
    and "solution_value r = exact_values \<sigma>"
  shows "total_intake_qty rep = (\<Sum>t<nat (number_of_days p). \<sigma> (Intake t))"
proof -
  have day: "(if exact_values \<sigma> (X t) = 1 then exact_values \<sigma> (Intake t) else 0)
      = of_int (\<sigma> (Intake t))" if "t < nat (number_of_days p)" for t
  proof (cases "\<sigma> (X t) = 1")
    case True
    then show ?thesis by (simp add: exact_values_def)
  next
    case False
    moreover have "0 \<le> \<sigma> (X t)" "\<sigma> (X t) \<le> 1" "0 \<le> \<sigma> (Intake t)"
      using build_model_bounds [OF assms(1,2) that] by simp_all
    moreover have "\<sigma> (Intake t) \<le> 1000000 * \<sigma> (X t)"
      using assms(3) that by (simp add: upper_of_sat)
    ultimately have "\<sigma> (X t) = 0" and "\<sigma> (Intake t) = 0" by simp_all
    then show ?thesis by (simp add: exact_values_def)
  qed
  have "sum_list (map (\<lambda>i. if exact_values \<sigma> (X i) = 1 then exact_values \<sigma> (Intake i) else 0)
          (range_py (number_of_days p)))
        = (\<Sum>t<nat (number_of_days p). of_int (\<sigma> (Intake t)))"
    unfolding range_py_def sum_list_upt by (rule sum.cong) (simp_all add: day)
  also have "\<dots> = of_int (\<Sum>t<nat (number_of_days p). \<sigma> (Intake t))"
    by simp
  finally have total: "sum_list (map (\<lambda>i. if exact_values \<sigma> (X i) = 1
          then exact_values \<sigma> (Intake i) else 0) (range_py (number_of_days p)))
        = of_int (\<Sum>t<nat (number_of_days p). \<sigma> (Intake t))" .
  from assms(4) have "total_intake_qty rep
      = py_int (sum_list (map (\<lambda>i. if solution_value r (X i) = 1
          then solution_value r (Intake i) else 0) (range_py (number_of_days p))))"
    by (simp add: extract_results_Inr)
  then show ?thesis
    unfolding assms(5) total by (simp only: py_int_of_int)
qed

theorem filtered_intake_total_witness:
  "build_model notebook_data = Inr notebook_model
   \<and> feasible notebook_model recorded_solution
   \<and> extract_results notebook_data recorded_result = Inr recorded_report
   \<and> solution_value recorded_result = exact_values recorded_solution
   \<and> total_intake_qty recorded_report
       = (\<Sum>t<nat (number_of_days notebook_data). recorded_solution (Intake t))
   \<and> total_intake_qty recorded_report = 36"
proof -
  note b = recorded_in_bounds
  have c: "\<forall>t < nat (number_of_days notebook_data). sat recorded_solution (constraint1 t)"
    using build_model_constraints(1) [OF build_notebook_model satisfies_recorded] by simp
  have v: "solution_value recorded_result = exact_values recorded_solution"
    by (simp add: recorded_result_def)
  show ?thesis
    using filtered_intake_total [OF build_notebook_model b c extract_recorded v]
      build_notebook_model recorded_feasible extract_recorded v
    by (simp add: recorded_report_def)
qed

text \<open>
  C3 (aggregate totals). The claim: the reported total order quantity, total ending
  inventory and total lost-sales quantity are the sums of the quantities, ending levels
  and lost quantities over all days. On the notebook's own data and recorded solution
  the extraction gives exactly the stored output, whose total inventory is 24, while the
  ending levels of the ten days add up to 38: the inventory (and lost-sales) additions
  are made only on the days with an order.
\<close>

theorem total_inventory_recorded:
  "extract_results notebook_data recorded_result = Inr recorded_report
   \<and> total_inventory recorded_report = 24
   \<and> sum_list (inv_row recorded_report) = 38"
  by (simp add: extract_recorded) (simp add: recorded_report_def)



text \<open>
  C5 (no Plan without success), as the claim states it: after a status other than
  OPTIMAL or FEASIBLE the extractor reads no values and derives no rows or totals. On data
  whose model has no optimum, whichever failure status the solver answers, the script
  goes on to print the table and the totals, from the zeros it reads.
\<close>

theorem no_plan_counterexample:
  "run unbounded_data (constant_solver (failed_result UNBOUNDED)) = Inr (failed_report 3)
   \<and> run unbounded_data (constant_solver (failed_result INFEASIBLE)) = Inr (failed_report 2)
   \<and> run unbounded_data (constant_solver (failed_result ABNORMAL)) = Inr (failed_report 4)
   \<and> run unbounded_data (constant_solver (failed_result NOT_SOLVED)) = Inr (failed_report 6)"
  by (simp add: run_def build_unbounded_model constant_solver_def extract_failed)

text \<open>
  C5, amended. The script tests no status: whenever the model could be built, whatever
  status the solver returns, the extractor reads the value of every variable and derives
  the rows and the totals from the values read, and prints them after the status.
\<close>

theorem extraction_unconditional:
  assumes "build_model p = Inr m"
  shows "\<exists>rep. run p solver = Inr rep
           \<and> printed_status rep = status_code (status (solver m))
           \<and> intake_row rep = map (\<lambda>i. py_int (solution_value (solver m) (Intake i)))
                                 (range_py (number_of_days p))
           \<and> inv_row rep = map (\<lambda>i. py_int (solution_value (solver m) (Inv i)))
                              (range_py (number_of_days p))
           \<and> lost_row rep = map (\<lambda>i. py_int (solution_value (solver m) (Lost i)))
                               (range_py (number_of_days p))
           \<and> total_intake_qty rep =
               py_int (sum_list (map (\<lambda>i. if solution_value (solver m) (X i) = 1
                 then solution_value (solver m) (Intake i) else 0) (range_py (number_of_days p))))"
proof -
  from assms have len: "nat (number_of_days p) \<le> length (demand p)"
    by (simp add: build_model_Inr)
  obtain rep where rep: "extract_results p (solver m) = Inr rep"
    using len by (simp add: extract_results_Inr)
  from rep assms have "run p solver = Inr rep"
    by (simp add: run_def)
  with rep show ?thesis
    by (auto simp: extract_results_Inr)
qed

theorem extraction_unconditional_witness:
  "build_model unbounded_data = Inr unbounded_model
   \<and> status (constant_solver (failed_result UNBOUNDED) unbounded_model) = UNBOUNDED
   \<and> run unbounded_data (constant_solver (failed_result UNBOUNDED)) = Inr (failed_report 3)
   \<and> printed_status (failed_report 3) = 3
   \<and> intake_row (failed_report 3) = [0]"
proof -
  from extraction_unconditional [OF build_unbounded_model, of "constant_solver (failed_result UNBOUNDED)"]
  obtain rep where "run unbounded_data (constant_solver (failed_result UNBOUNDED)) = Inr rep"
    and "printed_status rep
         = status_code (status (constant_solver (failed_result UNBOUNDED) unbounded_model))"
    by blast
  moreover have "run unbounded_data (constant_solver (failed_result UNBOUNDED))
      = Inr (failed_report 3)"
    by (simp add: run_def build_unbounded_model constant_solver_def extract_failed)
  ultimately show ?thesis
    using build_unbounded_model
    by (auto simp: failed_report_def constant_solver_def failed_result_def)
qed

section \<open>Claims about input validation\<close>

text \<open>
  C6 (input validation), as the claim states it: the builder fails exactly when the period
  count is non-positive, a demand is negative, or the MOQ or delivery cost is negative.
  On data with all of these the model is built: it is the empty model.
\<close>

theorem input_validation_counterexample:
  "number_of_days invalid_data \<le> 0 \<and> moq invalid_data < 0 \<and> delivery_cost invalid_data < 0
   \<and> demand invalid_data ! 0 < 0
   \<and> declare_variables invalid_data = []
   \<and> build_model invalid_data = Inr \<lparr>vars = [], constraints = [], minimize = Const 0\<rparr>"
  by (simp add: build_model_Inr)
     (simp add: invalid_data_def declare_variables_def range_py_def objective_def)

text \<open>
  C6, amended. The builder validates nothing and raises no InputError. Variable
  registration is the same for every input: it registers the four variables of each day
  \<open>0..N-1\<close> with their bounds and has no other effect, whatever the demands, the MOQ and
  the delivery cost. A non-positive \<open>N\<close> is no error: no variable is registered and no
  constraint is added. The signs of the demands, the MOQ and the delivery cost play no
  part in whether the constraints can be added.
\<close>

theorem no_input_validation:
  "length (declare_variables p) = 4 * nat (number_of_days p)
   \<and> set (declare_variables p) =
       (\<Union>t \<in> {..<nat (number_of_days p)}.
          {BoolVar (X t), IntVar 0 None (Intake t), IntVar 0 None (Inv t), IntVar 0 None (Lost t)})
   \<and> declare_variables (p\<lparr>demand := ds, moq := q, delivery_cost := c\<rparr>) = declare_variables p
   \<and> (\<forall>m. build_model p = Inr m \<longrightarrow> vars m = declare_variables p)
   \<and> (number_of_days p \<le> 0 \<longrightarrow> declare_variables p = [] \<and> add_constraints p = Inr [])
   \<and> isl (add_constraints (p\<lparr>demand := map uminus (demand p), moq := - moq p,
                                delivery_cost := - delivery_cost p\<rparr>))
       = isl (add_constraints p)"
proof -
  have "length (declare_variables p) = 4 * nat (number_of_days p)"
    by (simp add: declare_variables_def length_concat o_def declare_day_def range_py_def
        sum_list_triv)
  moreover have "set (declare_variables p) =
       (\<Union>t \<in> {..<nat (number_of_days p)}.
          {BoolVar (X t), IntVar 0 None (Intake t), IntVar 0 None (Inv t), IntVar 0 None (Lost t)})"
    by (auto simp: declare_variables_def declare_day_def range_py_def)
  moreover have "isl (add_constraints q) \<longleftrightarrow> length (demand q) < nat (number_of_days q)" for q
  proof -
    have short: "(\<exists>i \<in> set (range_py (number_of_days q)). \<not> i < length (demand q))
        \<longleftrightarrow> length (demand q) < nat (number_of_days q)"
      by (auto simp: set_range_py intro: bexI [of _ "length (demand q)"])
    show ?thesis
    proof (cases "add_constraints q")
      case (Inl e)
      then have "\<exists>i \<in> set (range_py (number_of_days q)). \<not> i < length (demand q)"
        by (simp add: add_constraints_def Let_def add_dynamics_Inl)
      with Inl short show ?thesis by simp
    next
      case (Inr cs)
      then have "\<forall>i \<in> set (range_py (number_of_days q)). i < length (demand q)"
        by (simp add: add_constraints_def Let_def add_dynamics_Inr)
      with Inr short show ?thesis by auto
    qed
  qed
  then have "isl (add_constraints (p\<lparr>demand := map uminus (demand p), moq := - moq p,
                                delivery_cost := - delivery_cost p\<rparr>))
       = isl (add_constraints p)"
    by simp
  moreover have "number_of_days p \<le> 0 \<longrightarrow> add_constraints p = Inr []"
    by (simp add: add_constraints_def range_py_def)
  ultimately show ?thesis
    by (simp add: build_model_Inr declare_variables_def range_py_def)
qed

theorem no_input_validation_witness:
  "number_of_days invalid_data \<le> 0
   \<and> declare_variables invalid_data = [] \<and> add_constraints invalid_data = Inr []
   \<and> build_model one_day_data = Inr one_day_model
   \<and> vars one_day_model = declare_variables one_day_data
   \<and> length (declare_variables one_day_data) = 4"
proof -
  have n: "number_of_days invalid_data \<le> 0"
    by (simp add: invalid_data_def)
  show ?thesis
    using no_input_validation [where p = invalid_data]
      no_input_validation [where p = one_day_data] n build_one_day_model
    by (simp add: one_day_data_def)
qed

section \<open>Claims about optimal solutions\<close>

text \<open>
  C8 (degenerate horizon). For a one-day horizon whose demand the starting stock covers,
  with a positive delivery cost and a positive selling price (hence positive holding and
  lost-sales costs), every optimal solution of the built model orders nothing, loses
  nothing and ends the day with the starting stock minus the demand.
\<close>

theorem degenerate_horizon:
  assumes "number_of_days p = 1" and "build_model p = Inr m"
    and "demand p ! 0 \<le> stock_level p"
    and "0 < delivery_cost p" and "0 < selling_price p"
    and "optimal m \<sigma>"
  shows "\<sigma> (Intake 0) = 0 \<and> \<sigma> (Lost 0) = 0 \<and> \<sigma> (Inv 0) = stock_level p - demand p ! 0"
proof -
  let ?\<tau> = "\<lambda>v. if v = Inv 0 then stock_level p - demand p ! 0 else (0::int)"
  have dc: "0 \<le> delivery_cost p" and sp: "0 \<le> selling_price p"
    using assms(4,5) by simp_all
  have obj: "minimize m = objective p"
    using assms(2) by (auto simp: build_model_Inr)
  have s: "feasible m \<sigma>" using assms(6) by (simp add: optimal_def)
  have f: "feasible m ?\<tau>"
    by (rule degenerate_feasible [OF assms(1-3)])
  have t: "0 < nat (number_of_days p)" using assms(1) by simp
  have b: "\<forall>d \<in> set (vars m). in_bounds \<sigma> d" using s by (simp add: feasible_def)
  note bs = build_model_bounds [OF assms(2) b t]
  have nn: "0 \<le> delivery_cost p * \<sigma> (X 0)" "0 \<le> selling_price p * \<sigma> (Intake 0)"
    "0 \<le> selling_price p * \<sigma> (Lost 0)"
    using bs dc sp by simp_all
  have "eval \<sigma> (objective p) \<le> eval ?\<tau> (objective p)"
    using assms(6) f obj by (simp add: optimal_def)
  then have "100 * eval \<sigma> (objective p) \<le> 100 * eval ?\<tau> (objective p)"
    by simp
  then have "100 * (delivery_cost p * \<sigma> (X 0)) + selling_price p * \<sigma> (Intake 0)
      + 101 * (selling_price p * \<sigma> (Lost 0)) \<le> 0"
    unfolding one_day_cost_bound [OF assms(1,2) s] one_day_cost_bound [OF assms(1,2) f]
    by (simp only: of_int_le_iff) simp
  with nn have "selling_price p * \<sigma> (Intake 0) = 0" and "selling_price p * \<sigma> (Lost 0) = 0"
    by linarith+
  with assms(5) have q: "\<sigma> (Intake 0) = 0" and l: "\<sigma> (Lost 0) = 0"
    by simp_all
  have "satisfies m \<sigma>" using s by (simp add: feasible_def)
  then have "sat \<sigma> (constraint3 p 0)"
    using build_model_constraints(3) [OF assms(2) _ t] by simp
  then have "\<sigma> (Inv 0) = stock_level p + \<sigma> (Intake 0) - demand p ! 0 + \<sigma> (Lost 0)"
    using balance_of_sat [of \<sigma> p 0] by simp
  with q l show ?thesis by simp
qed

theorem degenerate_horizon_witness:
  "number_of_days one_day_data = 1 \<and> build_model one_day_data = Inr one_day_model
   \<and> demand one_day_data ! 0 \<le> stock_level one_day_data
   \<and> 0 < delivery_cost one_day_data \<and> 0 < selling_price one_day_data
   \<and> optimal one_day_model one_day_solution
   \<and> one_day_solution (Intake 0) = 0 \<and> one_day_solution (Lost 0) = 0
   \<and> one_day_solution (Inv 0) = 1"
proof -
  have n: "number_of_days one_day_data = 1"
    and d: "demand one_day_data ! 0 \<le> stock_level one_day_data"
    and c: "0 < delivery_cost one_day_data" and s: "0 < selling_price one_day_data"
    by (simp_all add: one_day_data_def)
  have "one_day_solution
      = (\<lambda>v. if v = Inv 0 then stock_level one_day_data - demand one_day_data ! 0 else 0)"
    by (simp add: fun_eq_iff one_day_solution_def one_day_data_def)
  then have opt: "optimal one_day_model one_day_solution"
    using degenerate_optimal [OF n build_one_day_model d] c s by simp
  show ?thesis
    using degenerate_horizon [OF n build_one_day_model d c s opt] n build_one_day_model d c s opt
    by (simp add: one_day_data_def)
qed

subsection \<open>The lower bound is sound\<close>

lemma suffix_min_rev_length: "length (suffix_min_rev vs r) = length vs + length r"
  by (induction vs arbitrary: r) simp_all

lemma suffix_min_rev_nonneg:
  "r \<noteq> [] \<Longrightarrow> \<forall>v \<in> set vs. 0 \<le> v \<Longrightarrow> \<forall>h \<in> set r. 0 \<le> h
     \<Longrightarrow> \<forall>h \<in> set (suffix_min_rev vs r). 0 \<le> h"
proof (induction vs arbitrary: r)
  case Nil
  then show ?case by simp
next
  case (Cons v vs)
  from Cons.prems(1) obtain h r' where r: "r = h # r'"
    by (cases r) auto
  have 1: "min (int (length vs) + v) (hd r) # r \<noteq> []"
    by simp
  have 2: "\<forall>v \<in> set vs. 0 \<le> v"
    using Cons.prems(2) by simp
  have "0 \<le> v" and "0 \<le> hd r"
    using Cons.prems(2,3) r by simp_all
  then have 3: "\<forall>h \<in> set (min (int (length vs) + v) (hd r) # r). 0 \<le> h"
    using Cons.prems(3) by simp
  show ?case
    unfolding suffix_min_rev.simps by (rule Cons.IH [OF 1 2 3])
qed

lemma suffix_min_rev_le:
  assumes "length r = Suc (length B)"
    and "\<And>j k. j \<le> k \<Longrightarrow> k < length B \<Longrightarrow> r ! j \<le> int (length vs + k) + B ! k"
    and "j \<le> k" and "k < length vs + length B"
  shows "suffix_min_rev vs r ! j \<le> int k + (rev vs @ B) ! k"
  using assms
proof (induction vs arbitrary: r B j k)
  case Nil
  then show ?case by simp
next
  case (Cons v vs)
  let ?r = "min (int (length vs) + v) (hd r) # r"
  have len: "length ?r = Suc (length (v # B))" using Cons.prems(1) by simp
  have r0: "hd r = r ! 0" using Cons.prems(1) by (cases r) simp_all
  have inv: "?r ! j' \<le> int (length vs + k') + (v # B) ! k'"
    if jk: "j' \<le> k'" and kl: "k' < length (v # B)" for j' k'
  proof (cases j')
    case 0
    show ?thesis
    proof (cases k')
      case 0
      with \<open>j' = 0\<close> show ?thesis by simp
    next
      case (Suc k'')
      then have "r ! 0 \<le> int (length (v # vs) + k'') + B ! k''"
        using Cons.prems(2) [of 0 k''] kl by simp
      with \<open>j' = 0\<close> Suc r0 show ?thesis by simp
    qed
  next
    case (Suc j'')
    then obtain k'' where k: "k' = Suc k''" using jk by (cases k') simp_all
    then have "r ! j'' \<le> int (length (v # vs) + k'') + B ! k''"
      using Cons.prems(2) [of j'' k''] jk kl Suc by simp
    with Suc k show ?thesis by simp
  qed
  have k: "k < length vs + length (v # B)"
    using Cons.prems(4) by simp
  have "suffix_min_rev vs ?r ! j \<le> int k + (rev vs @ (v # B)) ! k"
    by (rule Cons.IH [OF len inv Cons.prems(3) k])
  then show ?case by simp
qed

lemma suffix_min_le:
  assumes "j \<le> k" and "k < length T"
  shows "suffix_min T ! j \<le> int k + T ! k"
  using suffix_min_rev_le [of "[cost_cap]" "[]" "rev T" j k] assms
  by (simp add: suffix_min_def)

lemma suffix_min_length: "length (suffix_min T) = Suc (length T)"
  by (simp add: suffix_min_def suffix_min_rev_length)

lemma suffix_min_nonneg:
  "\<forall>v \<in> set T. 0 \<le> v \<Longrightarrow> h \<in> set (suffix_min T) \<Longrightarrow> 0 \<le> h"
  using suffix_min_rev_nonneg [of "[cost_cap]" "rev T"]
  by (simp add: suffix_min_def cost_cap_def)

lemma bound_entry_nonneg:
  assumes "\<forall>v \<in> set T. 0 \<le> v"
  shows "0 \<le> bound_entry d T (suffix_min T) s"
proof -
  have "min (length T) (nat (int s + 10 - d)) < length (suffix_min T)"
    by (simp add: suffix_min_length)
  then have "0 \<le> suffix_min T ! min (length T) (nat (int s + 10 - d))"
    using suffix_min_nonneg [OF assms] nth_mem by blast
  moreover have "0 \<le> carry_cost d T s"
    using assms by (simp add: carry_cost_def cost_cap_def)
  ultimately show ?thesis
    by (simp add: bound_entry_def cost_cap_def)
qed

lemma bound_table_shape:
  "length (bound_table ds) = 68 \<and> (\<forall>v \<in> set (bound_table ds). 0 \<le> v)"
  by (induction ds) (auto simp: bound_step_def bound_entry_nonneg)

lemma bound_at_nonneg: "\<forall>v \<in> set T. 0 \<le> v \<Longrightarrow> 0 \<le> bound_at T s"
  by (simp add: bound_at_def)

lemma bound_at_step_le_cap: "bound_at (bound_step d T) s \<le> cost_cap"
  by (simp add: bound_at_def bound_step_def bound_entry_def cost_cap_def)

lemma bound_step_sound:
  assumes len: "length T = 68" and nn: "\<forall>v \<in> set T. 0 \<le> v"
    and s: "0 \<le> s" and x: "0 \<le> x" "x \<le> 1" and q: "0 \<le> q"
    and s': "0 \<le> s'" and l: "0 \<le> l"
    and up: "q \<le> 1000000 * x" and lo: "10 * x \<le> q" and bal: "s + q - d + l = s'"
  shows "bound_at (bound_step d T) s \<le> 10 * x + s' + 100 * l + bound_at T s'"
proof -
  have T0: "0 \<le> bound_at T s'"
    by (rule bound_at_nonneg [OF nn])
  have cap: "bound_at (bound_step d T) s \<le> 68"
    using bound_at_step_le_cap [of d T s] by (simp add: cost_cap_def)
  have L: "length (bound_step d T) = 68"
    by (simp add: bound_step_def len)
  have E: "bound_at (bound_step d T) s = bound_entry d T (suffix_min T) (nat s)" if "s < 68"
  proof -
    from that s have n: "nat s < 68" by simp
    then have "bound_step d T ! nat s = bound_entry d T (suffix_min T) (nat s)"
      by (simp add: bound_step_def len)
    with n s show ?thesis by (simp add: bound_at_def L)
  qed
  consider (lost) "1 \<le> l" | (far) "68 \<le> s'" | (out) "68 \<le> s"
    | (carry) "l = 0" "s' < 68" "s < 68" "x = 0" | (order) "l = 0" "s' < 68" "s < 68" "x = 1"
    using l x by linarith
  then show ?thesis
  proof cases
    case lost
    with cap T0 x s' show ?thesis by linarith
  next
    case far
    with cap T0 x l show ?thesis by linarith
  next
    case out
    then have "\<not> nat s < 68" by linarith
    then have "bound_at (bound_step d T) s = 0"
      by (simp only: bound_at_def L) simp
    with T0 x s' l show ?thesis by linarith
  next
    case carry
    note E = E [OF carry(3)]
    from carry(4) up q have "q = 0" by simp
    with bal carry(1) have sd: "s - d = s'" by simp
    have ns: "int (nat s) = s" using s by simp
    have n': "nat s' < length T" using s' carry(2) len by linarith
    have ds: "d \<le> s" using sd s' by linarith
    have "carry_cost d T (nat s) = s' + T ! nat s'"
      unfolding carry_cost_def ns sd using ds n' by simp
    moreover have "bound_at T s' = T ! nat s'"
      unfolding bound_at_def using s' n' by simp
    moreover have "bound_entry d T (suffix_min T) (nat s) \<le> carry_cost d T (nat s)"
      unfolding bound_entry_def by (intro min.coboundedI2 min.cobounded1)
    ultimately show ?thesis using E carry(1,4) by linarith
  next
    case order
    note E = E [OF order(3)]
    let ?j = "min (length T) (nat (int (nat s) + 10 - d))"
    from order(4) lo have "10 \<le> q" by simp
    with bal order(1) have "s + 10 - d \<le> s'" by simp
    then have "nat (int (nat s) + 10 - d) \<le> nat s'" using s by linarith
    then have "?j \<le> nat s'" by simp
    moreover have n': "nat s' < length T" using s' order(2) len by linarith
    ultimately have "suffix_min T ! ?j \<le> int (nat s') + T ! nat s'"
      by (rule suffix_min_le)
    moreover have "bound_at T s' = T ! nat s'"
      unfolding bound_at_def using s' n' by simp
    moreover have "bound_entry d T (suffix_min T) (nat s) \<le> 10 + suffix_min T ! ?j"
      unfolding bound_entry_def by (intro min.coboundedI2 order_refl)
    ultimately show ?thesis using E order(1,4) s' by simp
  qed
qed

lemma tail_bound:
  fixes \<sigma> :: assignment
  assumes ok: "\<And>t. t < length ds \<Longrightarrow>
        0 \<le> \<sigma> (X t) \<and> \<sigma> (X t) \<le> 1 \<and> 0 \<le> \<sigma> (Intake t) \<and> 0 \<le> \<sigma> (Inv t) \<and> 0 \<le> \<sigma> (Lost t)
        \<and> \<sigma> (Intake t) \<le> 1000000 * \<sigma> (X t) \<and> 10 * \<sigma> (X t) \<le> \<sigma> (Intake t)
        \<and> (if t = 0 then s0 else \<sigma> (Inv (t - 1))) + \<sigma> (Intake t) - ds ! t + \<sigma> (Lost t)
            = \<sigma> (Inv t)"
    and s0: "0 \<le> s0" and t0: "t0 \<le> length ds"
  shows "bound_at (bound_table (drop t0 ds)) (if t0 = 0 then s0 else \<sigma> (Inv (t0 - 1)))
           \<le> (\<Sum>t = t0..<length ds. 10 * \<sigma> (X t) + \<sigma> (Inv t) + 100 * \<sigma> (Lost t))"
  using t0
proof (induction t0 rule: inc_induct)
  case base
  then show ?case by (simp add: bound_at_def)
next
  case (step n)
  let ?prev = "if n = 0 then s0 else \<sigma> (Inv (n - 1))"
  let ?T = "bound_table (drop (Suc n) ds)"
  have prev: "0 \<le> ?prev"
  proof (cases n)
    case 0
    with s0 show ?thesis by simp
  next
    case (Suc n')
    then have "n' < length ds" using step.hyps(2) by simp
    from ok [OF this] Suc show ?thesis by simp
  qed
  have d: "drop n ds = ds ! n # drop (Suc n) ds"
    using step.hyps(2) by (simp add: Cons_nth_drop_Suc)
  note o = ok [OF step.hyps(2)]
  have "bound_at (bound_step (ds ! n) ?T) ?prev
      \<le> 10 * \<sigma> (X n) + \<sigma> (Inv n) + 100 * \<sigma> (Lost n) + bound_at ?T (\<sigma> (Inv n))"
    using bound_table_shape [of "drop (Suc n) ds"] prev o
    by (intro bound_step_sound [where q = "\<sigma> (Intake n)"]) simp_all
  moreover have "bound_at ?T (\<sigma> (Inv n))
      \<le> (\<Sum>t = Suc n..<length ds. 10 * \<sigma> (X t) + \<sigma> (Inv t) + 100 * \<sigma> (Lost t))"
    using step.IH by simp
  moreover have "(\<Sum>t = n..<length ds. 10 * \<sigma> (X t) + \<sigma> (Inv t) + 100 * \<sigma> (Lost t))
      = 10 * \<sigma> (X n) + \<sigma> (Inv n) + 100 * \<sigma> (Lost n)
        + (\<Sum>t = Suc n..<length ds. 10 * \<sigma> (X t) + \<sigma> (Inv t) + 100 * \<sigma> (Lost t))"
    using step.hyps(2) by (simp add: sum.atLeast_Suc_lessThan)
  ultimately show ?case unfolding d bound_table.simps by linarith
qed

lemma notebook_bound_value:
  "bound_at (bound_table [3, 5, 3, 5, 3, 5, 3, 5, 3, 5]) 4 = 68"
  by code_simp

lemma notebook_days:
  assumes "feasible notebook_model \<sigma>" and "t < 10"
  shows "0 \<le> \<sigma> (X t) \<and> \<sigma> (X t) \<le> 1 \<and> 0 \<le> \<sigma> (Intake t) \<and> 0 \<le> \<sigma> (Inv t) \<and> 0 \<le> \<sigma> (Lost t)
        \<and> \<sigma> (Intake t) \<le> 1000000 * \<sigma> (X t) \<and> 10 * \<sigma> (X t) \<le> \<sigma> (Intake t)
        \<and> (if t = 0 then 4 else \<sigma> (Inv (t - 1))) + \<sigma> (Intake t)
              - [3, 5, 3, 5, 3, 5, 3, 5, 3, 5] ! t + \<sigma> (Lost t) = \<sigma> (Inv t)"
proof -
  have t: "t < nat (number_of_days notebook_data)"
    using assms(2) by (simp add: notebook_data_def)
  have b: "\<forall>d \<in> set (vars notebook_model). in_bounds \<sigma> d" and s: "satisfies notebook_model \<sigma>"
    using assms(1) by (simp_all add: feasible_def)
  note c = build_model_constraints [OF build_notebook_model s t]
  have "\<sigma> (Intake t) \<le> 1000000 * \<sigma> (X t)"
    by (rule upper_of_sat [OF c(1)])
  moreover have "10 * \<sigma> (X t) \<le> \<sigma> (Intake t)"
    using lower_of_sat [OF c(2)] by (simp add: notebook_data_def)
  moreover have "stock_level notebook_data = 4"
    and "demand notebook_data = [3, 5, 3, 5, 3, 5, 3, 5, 3, 5]"
    by (simp_all add: notebook_data_def)
  then have "(if t = 0 then 4 else \<sigma> (Inv (t - 1))) + \<sigma> (Intake t)
              - [3, 5, 3, 5, 3, 5, 3, 5, 3, 5] ! t + \<sigma> (Lost t) = \<sigma> (Inv t)"
    using balance_of_sat [OF c(3)] by (simp only:)
  ultimately show ?thesis
    using build_model_bounds [OF build_notebook_model b t] by simp
qed

lemma notebook_cost_bound:
  assumes "feasible notebook_model \<sigma>"
  shows "68 \<le> (\<Sum>t<10. 10 * \<sigma> (X t) + \<sigma> (Inv t) + 100 * \<sigma> (Lost t))"
proof -
  have "bound_at (bound_table (drop 0 [3, 5, 3, 5, 3, 5, 3, 5, 3, 5])) (if (0::nat) = 0 then 4 else \<sigma> (Inv (0 - 1)))
      \<le> (\<Sum>t = 0..<length [3, 5, 3, 5, 3, 5, 3, 5, 3, 5 :: int]. 10 * \<sigma> (X t) + \<sigma> (Inv t) + 100 * \<sigma> (Lost t))"
    by (rule tail_bound) (simp_all add: notebook_days [OF assms])
  then have "bound_at (bound_table [3, 5, 3, 5, 3, 5, 3, 5, 3, 5]) 4
      \<le> (\<Sum>t = 0..<length [3, 5, 3, 5, 3, 5, 3, 5, 3, 5 :: int]. 10 * \<sigma> (X t) + \<sigma> (Inv t) + 100 * \<sigma> (Lost t))"
    by (simp only: drop_0 simp_thms if_True)
  moreover have "length [3, 5, 3, 5, 3, 5, 3, 5, 3, 5 :: int] = 10"
    by simp
  ultimately show ?thesis
    by (simp only: notebook_bound_value atLeast0LessThan)
qed

lemma notebook_objective:
  "eval \<sigma> (objective notebook_data)
     = of_int (\<Sum>t<10. 10 * \<sigma> (X t) + \<sigma> (Inv t) + 100 * \<sigma> (Lost t)) / 10"
  by (simp add: eval_objective day_cost_def inventory_holding_cost_def notebook_data_def
      sum_divide_distrib add_divide_distrib)

lemma recorded_objective: "eval recorded_solution (objective notebook_data) = 34 / 5"
  by (simp add: objective_def notebook_data_def range_py_10 day_cost_def
      inventory_holding_cost_def recorded_solution_def row_at_def)

lemma recorded_optimal: "optimal notebook_model recorded_solution"
proof -
  have "eval recorded_solution (objective notebook_data) \<le> eval \<tau> (objective notebook_data)"
    if "feasible notebook_model \<tau>" for \<tau>
  proof -
    have "(68::rat) \<le> of_int (\<Sum>t<10. 10 * \<tau> (X t) + \<tau> (Inv t) + 100 * \<tau> (Lost t))"
      using notebook_cost_bound [OF that] by (simp only: of_int_le_iff [symmetric, where ?'a = rat] of_int_numeral)
    then show ?thesis
      unfolding recorded_objective notebook_objective [of \<tau>] by simp
  qed
  then show ?thesis
    using recorded_feasible by (simp add: optimal_def notebook_model_def)
qed

text \<open>
  C9 (forced order scenario). For the notebook's instance (starting stock 4, demands
  3, 5, 3, 5, 3, 5, 3, 5, 3, 5, MOQ 10, delivery cost 1, selling price 10) the model is
  built and has an optimal solution, the one recorded in the notebook's output with
  status 0 (OPTIMAL); every optimal solution loses no sale on any of the ten days, and
  every non-zero order quantity of an optimal solution is at least 10.
\<close>

theorem forced_order_scenario:
  "build_model notebook_data = Inr notebook_model
   \<and> optimal notebook_model recorded_solution
   \<and> (\<forall>\<sigma>. optimal notebook_model \<sigma> \<longrightarrow>
         (\<forall>t<10. \<sigma> (Lost t) = 0 \<and> (\<sigma> (Intake t) \<noteq> 0 \<longrightarrow> 10 \<le> \<sigma> (Intake t))))"
proof -
  have "\<sigma> (Lost t) = 0 \<and> (\<sigma> (Intake t) \<noteq> 0 \<longrightarrow> 10 \<le> \<sigma> (Intake t))"
    if opt: "optimal notebook_model \<sigma>" and t: "t < 10" for \<sigma> t
  proof -
    let ?c = "\<lambda>t. 10 * \<sigma> (X t) + \<sigma> (Inv t) + 100 * \<sigma> (Lost t)"
    have f: "feasible notebook_model \<sigma>"
      using opt by (simp add: optimal_def)
    have "eval \<sigma> (objective notebook_data) \<le> eval recorded_solution (objective notebook_data)"
      using opt recorded_feasible by (simp add: optimal_def notebook_model_def)
    then have "of_int (\<Sum>t<10. ?c t) \<le> (68::rat)"
      unfolding recorded_objective notebook_objective [of \<sigma>] by simp
    then have total: "(\<Sum>t<10. ?c t) \<le> 68"
      by (simp only: of_int_le_iff [symmetric, where ?'a = rat] of_int_numeral)
    have "?c t \<le> (\<Sum>t<10. ?c t)"
    proof (rule member_le_sum)
      show "t \<in> {..<10}" using t by simp
      show "\<And>u. u \<in> {..<10} - {t} \<Longrightarrow> 0 \<le> ?c u"
        using notebook_days [OF f] by simp
    qed simp
    with total have "100 * \<sigma> (Lost t) \<le> 68"
      using notebook_days [OF f t] by linarith
    then have "\<sigma> (Lost t) = 0"
      using notebook_days [OF f t] by linarith
    moreover have "\<sigma> (Intake t) \<noteq> 0 \<longrightarrow> 10 \<le> \<sigma> (Intake t)"
      using notebook_days [OF f t] by (cases "\<sigma> (X t) = 0") auto
    ultimately show ?thesis by simp
  qed
  then show ?thesis
    using build_notebook_model recorded_optimal by blast
qed

theorem forced_order_scenario_witness:
  "build_model notebook_data = Inr notebook_model
   \<and> optimal notebook_model recorded_solution
   \<and> recorded_solution (Lost 3) = 0
   \<and> recorded_solution (Intake 1) = 12 \<and> 10 \<le> recorded_solution (Intake 1)
   \<and> recorded_solution (Intake 0) = 0"
proof -
  from forced_order_scenario have opt: "optimal notebook_model recorded_solution"
    and all: "\<forall>\<sigma>. optimal notebook_model \<sigma> \<longrightarrow>
         (\<forall>t<10. \<sigma> (Lost t) = 0 \<and> (\<sigma> (Intake t) \<noteq> 0 \<longrightarrow> 10 \<le> \<sigma> (Intake t)))"
    by simp_all
  from all opt have "\<forall>t<10. recorded_solution (Lost t) = 0
      \<and> (recorded_solution (Intake t) \<noteq> 0 \<longrightarrow> 10 \<le> recorded_solution (Intake t))"
    by blast
  then have "recorded_solution (Lost 3) = 0"
    and "recorded_solution (Intake 1) \<noteq> 0 \<longrightarrow> 10 \<le> recorded_solution (Intake 1)"
    by simp_all
  with opt build_notebook_model show ?thesis
    by (simp add: recorded_solution_def row_at_def)
qed

end
